theory Spec2Isabelle
  imports Complex_Main
begin

section \<open>Errors and Python built-ins\<close>

text \<open>
  The exceptions that \<^verbatim>\<open>lm/main.py\<close> can raise in the parts embedded here.
  The two \<^verbatim>\<open>assert\<close> statements of \<^verbatim>\<open>main\<close> both raise
  \<^verbatim>\<open>AssertionError\<close>; the argument records which of them failed.
  \<^verbatim>\<open>ModelError\<close> stands for any exception that escapes the neural network (the
  forward pass and the loss), which is an external collaborator.
\<close>

datatype assert_site = AccumDividesWorld | RunMarkExists

datatype error =
    AssertionError assert_site
  | ValueError
  | ZeroDivisionError
  | StatisticsError
  | RuntimeError
  | ModelError
  | KeyboardInterrupt

text \<open>
  \<^verbatim>\<open>range(start, stop, step)\<close>: a zero step raises \<^verbatim>\<open>ValueError\<close>; otherwise the
  range is empty when \<^verbatim>\<open>start\<close> is not before \<^verbatim>\<open>stop\<close> in the direction of the step,
  and has \<^verbatim>\<open>(stop - start - 1) // step + 1\<close> elements for a positive step
  (\<^verbatim>\<open>(start - stop - 1) // (-step) + 1\<close> for a negative one), the k-th being
  \<^verbatim>\<open>start + k * step\<close>.
\<close>

definition range_len :: "int \<Rightarrow> int \<Rightarrow> int \<Rightarrow> nat" where
  "range_len start stop stp =
     (if 0 < stp
      then (if stop \<le> start then 0 else nat ((stop - start - 1) div stp + 1))
      else (if start \<le> stop then 0 else nat ((start - stop - 1) div (- stp) + 1)))"

definition py_range :: "int \<Rightarrow> int \<Rightarrow> int \<Rightarrow> error + int list" where
  "py_range start stop stp =
     (if stp = 0 then Inl ValueError
      else Inr (map (\<lambda>k. start + int k * stp) [0..<range_len start stop stp]))"

text \<open>
  \<^verbatim>\<open>xs[a:b]\<close> on a list or a one-dimensional array: a negative bound counts from the
  end, both bounds are clamped to \<^verbatim>\<open>[0, len(xs)]\<close>, and an empty or reversed interval
  gives the empty sequence.
\<close>

definition slice_bound :: "nat \<Rightarrow> int \<Rightarrow> nat" where
  "slice_bound n i = (if i < 0 then nat (int n + i) else min n (nat i))"

definition py_slice :: "'a list \<Rightarrow> int \<Rightarrow> int \<Rightarrow> 'a list" where
  "py_slice xs a b =
     (let lo = slice_bound (length xs) a; hi = slice_bound (length xs) b
      in take (hi - lo) (drop lo xs))"

text \<open>\<^verbatim>\<open>a % b == 0\<close>, which raises when \<^verbatim>\<open>b\<close> is zero.\<close>

definition divides_step :: "int \<Rightarrow> int \<Rightarrow> error + bool" where
  "divides_step a b = (if b = 0 then Inl ZeroDivisionError else Inr (a mod b = 0))"

text \<open>\<^verbatim>\<open>a // b\<close>, which raises when \<^verbatim>\<open>b\<close> is zero.\<close>

definition floordiv :: "int \<Rightarrow> int \<Rightarrow> error + int" where
  "floordiv a b = (if b = 0 then Inl ZeroDivisionError else Inr (a div b))"

section \<open>AverageMeter\<close>

text \<open>
  \<^verbatim>\<open>class AverageMeter\<close>: the list of recorded values. \<^verbatim>\<open>statistics.mean\<close>
  sums its data as exact fractions and divides by the count, and raises
  \<^verbatim>\<open>StatisticsError\<close> on empty data; the values are rationals here.
\<close>

record AverageMeter =
  values_of :: "rat list"

definition meter_init :: AverageMeter where
  "meter_init = \<lparr>values_of = []\<rparr>"

definition update :: "rat \<Rightarrow> AverageMeter \<Rightarrow> AverageMeter" where
  "update v m = m\<lparr>values_of := values_of m @ [v]\<rparr>"

definition statistics_mean :: "rat list \<Rightarrow> error + rat" where
  "statistics_mean vs =
     (if vs = [] then Inl StatisticsError else Inr (sum_list vs / of_nat (length vs)))"

definition mean :: "AverageMeter \<Rightarrow> error + rat" where
  "mean m = statistics_mean (values_of m)"

definition reset :: "AverageMeter \<Rightarrow> AverageMeter" where
  "reset m = m\<lparr>values_of := []\<rparr>"

section \<open>Batch sampling\<close>

text \<open>
  \<^verbatim>\<open>_batch_it(it, batch_size)\<close>: the generator, as the list of the batches it yields.
  \<open>batch_loop\<close> is the \<^verbatim>\<open>for\<close> loop with the current \<^verbatim>\<open>batch\<close>; the equation for the
  exhausted iterator is the \<^verbatim>\<open>yield batch\<close> after the loop.
\<close>

fun batch_loop :: "'a list \<Rightarrow> int \<Rightarrow> 'a list \<Rightarrow> 'a list list" where
  "batch_loop [] batch_size batch = [batch]"
| "batch_loop (x # it) batch_size batch =
     (let batch' = batch @ [x]
      in if int (length batch') = batch_size
         then batch' # batch_loop it batch_size []
         else batch_loop it batch_size batch')"

definition batch_it :: "'a list \<Rightarrow> int \<Rightarrow> 'a list list" where
  "batch_it it batch_size = batch_loop it batch_size []"

text \<open>
  \<^verbatim>\<open>_valid_batch_iter(dataset, batch_size, n_ctx)\<close>. \<open>valid_windows\<close> is the generator
  expression over \<^verbatim>\<open>start_indices\<close>: the slices handed to \<^verbatim>\<open>_batch_it\<close>.
\<close>

definition valid_windows :: "'a list \<Rightarrow> int \<Rightarrow> error + 'a list list" where
  "valid_windows dataset n_ctx =
     (case py_range 0 (int (length dataset) - n_ctx) n_ctx of
        Inl e \<Rightarrow> Inl e
      | Inr start_indices \<Rightarrow>
          Inr (map (\<lambda>start_idx. py_slice dataset start_idx (start_idx + n_ctx)) start_indices))"

definition valid_batch_iter :: "'a list \<Rightarrow> int \<Rightarrow> int \<Rightarrow> error + 'a list list list" where
  "valid_batch_iter dataset batch_size n_ctx =
     (case valid_windows dataset n_ctx of
        Inl e \<Rightarrow> Inl e
      | Inr ws \<Rightarrow> Inr (batch_it ws batch_size))"

text \<open>
  \<^verbatim>\<open>np.random.randint(low, high)\<close> returns an integer of \<^verbatim>\<open>[low, high)\<close> and raises
  \<^verbatim>\<open>ValueError\<close> when \<^verbatim>\<open>low >= high\<close>. The generator is outside the program: the first
  argument is the raw number it produces for this call, reduced into the range.
\<close>

definition randint :: "nat \<Rightarrow> int \<Rightarrow> int \<Rightarrow> error + int" where
  "randint raw low high =
     (if high \<le> low then Inl ValueError else Inr (low + int (raw mod nat (high - low))))"

text \<open>
  \<^verbatim>\<open>_gen_training_batch(dataset, n_ctx, batch_size)\<close>. \<open>rnd k\<close> is the raw number of the
  k-th call of the generator. \<open>draw_indices\<close> is the list comprehension over
  \<^verbatim>\<open>range(batch_size)\<close>, which stops at the first draw that raises.
\<close>

fun draw_indices :: "(nat \<Rightarrow> nat) \<Rightarrow> int \<Rightarrow> nat \<Rightarrow> nat \<Rightarrow> error + int list" where
  "draw_indices rnd high k 0 = Inr []"
| "draw_indices rnd high k (Suc n) =
     (case randint (rnd k) 0 high of
        Inl e \<Rightarrow> Inl e
      | Inr idx \<Rightarrow>
          (case draw_indices rnd high (Suc k) n of
             Inl e \<Rightarrow> Inl e
           | Inr rest \<Rightarrow> Inr (idx # rest)))"

definition gen_training_batch ::
  "(nat \<Rightarrow> nat) \<Rightarrow> 'a list \<Rightarrow> int \<Rightarrow> int \<Rightarrow> error + 'a list list" where
  "gen_training_batch rnd dataset n_ctx batch_size =
     (case draw_indices rnd (int (length dataset) - n_ctx) 0 (nat batch_size) of
        Inl e \<Rightarrow> Inl e
      | Inr indices \<Rightarrow> Inr (map (\<lambda>idx. py_slice dataset idx (idx + n_ctx)) indices))"

text \<open>
  \<^verbatim>\<open>get_valid_loss\<close>: \<open>model_loss\<close> is the network and the loss on one batch
  (\<^verbatim>\<open>loss_fn(model(ctx)['logits'], ctx)\<close>), which may raise. \<open>loss_loop\<close> is the
  \<^verbatim>\<open>for ctx in ...\<close> loop that records the loss of each batch in a meter; the loop over
  the micro-batches in \<^verbatim>\<open>train_step\<close> has the same form (its backward pass changes
  nothing that is modelled here).
\<close>

fun loss_loop ::
  "('a list list \<Rightarrow> error + rat) \<Rightarrow> 'a list list list \<Rightarrow> AverageMeter \<Rightarrow> error + AverageMeter" where
  "loss_loop model_loss [] losses = Inr losses"
| "loss_loop model_loss (ctx # rest) losses =
     (case model_loss ctx of
        Inl e \<Rightarrow> Inl e
      | Inr loss \<Rightarrow> loss_loop model_loss rest (update loss losses))"

definition get_valid_loss ::
  "('a list list \<Rightarrow> error + rat) \<Rightarrow> 'a list \<Rightarrow> int \<Rightarrow> int \<Rightarrow> error + rat" where
  "get_valid_loss model_loss valid_dataset batch_size n_ctx =
     (case valid_batch_iter valid_dataset batch_size n_ctx of
        Inl e \<Rightarrow> Inl e
      | Inr batches \<Rightarrow>
          (case loss_loop model_loss batches meter_init of
             Inl e \<Rightarrow> Inl e
           | Inr losses \<Rightarrow> mean losses))"

section \<open>The run directory and checkpoints\<close>

text \<open>
  The run directory is a flat set of named files. \<open>ModelCheckpoint u s\<close> is the content
  of \<^verbatim>\<open>model.pt\<close>: \<^verbatim>\<open>{'state_dict': model.state_dict(), 'step': step}\<close>, where the
  parameters of the network are identified by the number \<open>u\<close> of optimizer updates that
  produced them; \<open>OptimCheckpoint u\<close> is \<^verbatim>\<open>optimizer.state_dict()\<close> after \<open>u\<close> updates.
  \<open>Other\<close> is the content of a file that the program did not write.
\<close>

datatype blob =
    Empty
  | ParamsJson
  | ModelCheckpoint nat int
  | OptimCheckpoint nat
  | Other nat

record run_dir =
  dir_exists :: bool
  files :: "string \<Rightarrow> blob option"

definition rmtree :: "run_dir \<Rightarrow> run_dir" where
  "rmtree d = \<lparr>dir_exists = False, files = (\<lambda>name. None)\<rparr>"

definition mkdir :: "run_dir \<Rightarrow> run_dir" where
  "mkdir d = d\<lparr>dir_exists := True\<rparr>"

definition touch :: "string \<Rightarrow> run_dir \<Rightarrow> run_dir" where
  "touch name d =
     (case files d name of
        None \<Rightarrow> d\<lparr>files := (files d)(name \<mapsto> Empty)\<rparr>
      | Some b \<Rightarrow> d)"

definition write_file :: "string \<Rightarrow> blob \<Rightarrow> run_dir \<Rightarrow> run_dir" where
  "write_file name b d = d\<lparr>files := (files d)(name \<mapsto> b)\<rparr>"

text \<open>
  \<^verbatim>\<open>path.stem\<close> and \<^verbatim>\<open>path.suffix\<close> of a file name: the suffix starts at the last dot,
  unless that dot is the first or the last character of the name.
\<close>

definition last_ext :: "string \<Rightarrow> string" where
  "last_ext name = rev (takeWhile (\<lambda>c. c \<noteq> CHR ''.'') (rev name))"

definition suffix_of :: "string \<Rightarrow> string" where
  "suffix_of name =
     (if CHR ''.'' \<in> set name \<and> last_ext name \<noteq> [] \<and> Suc (length (last_ext name)) < length name
      then CHR ''.'' # last_ext name else [])"

definition stem_of :: "string \<Rightarrow> string" where
  "stem_of name = take (length name - length (suffix_of name)) name"

definition prev_name :: "string \<Rightarrow> string" where
  "prev_name name = stem_of name @ ''-prev'' @ suffix_of name"

text \<open>
  One round of the \<^verbatim>\<open>for path in [model_path, optim_path]\<close> loop of \<^verbatim>\<open>save\<close>:
  \<^verbatim>\<open>if path.exists(): shutil.copy(path, run_path / f'{path.stem}-prev{path.suffix}')\<close>.
\<close>

definition backup :: "string \<Rightarrow> run_dir \<Rightarrow> run_dir" where
  "backup path d =
     (case files d path of
        None \<Rightarrow> d
      | Some b \<Rightarrow> d\<lparr>files := (files d)(prev_name path \<mapsto> b)\<rparr>)"

section \<open>The training loop controller\<close>

text \<open>The arguments of \<^verbatim>\<open>main\<close> that the control flow reads.\<close>

record args =
  epochs :: int
  batch_size :: int
  g_accum_gradients :: "int option"
  n_ctx :: int
  clean :: bool
  log_every :: int
  save_every :: int
  validate_every :: "int option"
  only_validate :: bool
  max_tokens :: "int option"
  device_id :: "int option"
  n_devices :: "int option"

text \<open>
  What the program reads from outside: the number of devices, the two corpora, the raw
  numbers of the random generator (by call), and the network with its loss on one batch,
  which depends on the parameters (the number of updates so far) and may raise.
\<close>

record env =
  device_count :: int
  train_dataset :: "nat list"
  valid_dataset :: "nat list"
  entropy :: "nat \<Rightarrow> nat"
  model_loss :: "nat \<Rightarrow> nat list list \<Rightarrow> error + rat"

text \<open>
  What is observable of a run besides the run directory, in order. \<open>PrintF\<close> is the
  \<^verbatim>\<open>print\<close> of a formatted string, with the numbers that fill it. \<open>Saved\<close> marks a
  \<^verbatim>\<open>save()\<close> on the primary; \<open>Updated\<close> marks an \<^verbatim>\<open>optimizer.step()\<close>.
\<close>

datatype event =
    Print string
  | PrintF string "int list"
  | PrintParams
  | SetPostfix int rat
  | WriteEventLoss int rat
  | WriteEventValidLoss int rat
  | Saved nat int
  | Updated
  | Removed
  | LoadTokenizer
  | LoadDatasets
  | CreateModel
  | InitProcessGroup int

text \<open>
  The mutable state of one process: the \<^verbatim>\<open>nonlocal step\<close>, the model and optimizer (as
  the number of updates applied), \<^verbatim>\<open>loss_meter\<close>, the position in the random stream,
  the run directory, and the events so far. \<open>pending\<close> is the delivery of an interrupt
  signal: \<open>Some k\<close> when \<^verbatim>\<open>KeyboardInterrupt\<close> is raised in place of the statement of the
  training loop that would run after \<open>k\<close> more statements, \<open>None\<close> when no signal comes.
\<close>

record run_state =
  step :: int
  updates :: nat
  loss_meter :: AverageMeter
  draws :: nat
  run_path :: run_dir
  events :: "event list"
  pending :: "nat option"

text \<open>How a statement ends: normally, by \<^verbatim>\<open>return\<close>, or by an exception.\<close>

datatype signal = Next | Return | Raise error

type_synonym action = "run_state \<Rightarrow> signal \<times> run_state"

fun block :: "action list \<Rightarrow> action" where
  "block [] s = (Next, s)"
| "block (a # as) s =
     (case a s of
        (sig, s') \<Rightarrow> (case sig of Next \<Rightarrow> block as s' | Return \<Rightarrow> (sig, s') | Raise e \<Rightarrow> (sig, s')))"

text \<open>\<^verbatim>\<open>if cond: body\<close>, where the condition may raise.\<close>

definition if_then :: "(run_state \<Rightarrow> error + bool) \<Rightarrow> action \<Rightarrow> action" where
  "if_then cond body s =
     (case cond s of
        Inl e \<Rightarrow> (Raise e, s)
      | Inr b \<Rightarrow> (if b then body s else (Next, s)))"

text \<open>\<^verbatim>\<open>for _ in range(n): body\<close>.\<close>

primrec repeat :: "nat \<Rightarrow> action \<Rightarrow> action" where
  "repeat 0 body s = (Next, s)"
| "repeat (Suc n) body s =
     (case body s of
        (sig, s') \<Rightarrow> (case sig of Next \<Rightarrow> repeat n body s' | Return \<Rightarrow> (sig, s') | Raise e \<Rightarrow> (sig, s')))"

text \<open>A statement of the training loop, where a pending interrupt may be delivered.\<close>

definition stmt :: "action \<Rightarrow> action" where
  "stmt a s =
     (case pending s of
        None \<Rightarrow> a s
      | Some 0 \<Rightarrow> (Raise KeyboardInterrupt, s\<lparr>pending := None\<rparr>)
      | Some (Suc k) \<Rightarrow> a (s\<lparr>pending := Some k\<rparr>))"

definition emit :: "event \<Rightarrow> run_state \<Rightarrow> run_state" where
  "emit ev s = s\<lparr>events := events s @ [ev]\<rparr>"

text \<open>The local variables that \<^verbatim>\<open>main\<close> derives from its arguments (lines 57 to 64 and 127).\<close>

definition is_main :: "args \<Rightarrow> bool" where
  "is_main a = (device_id a = Some 0 \<or> device_id a = None)"

definition world_size :: "args \<Rightarrow> int" where
  "world_size a = max 1 (case n_devices a of None \<Rightarrow> 0 | Some n \<Rightarrow> n)"

definition g_accum :: "args \<Rightarrow> int" where
  "g_accum a = (case g_accum_gradients a of None \<Rightarrow> world_size a | Some g \<Rightarrow> g)"

definition accum_gradients :: "args \<Rightarrow> int" where
  "accum_gradients a = g_accum a div world_size a"

definition validate_every_of :: "args \<Rightarrow> int" where
  "validate_every_of a = (case validate_every a of None \<Rightarrow> save_every a | Some v \<Rightarrow> v)"

definition step_tokens :: "args \<Rightarrow> int" where
  "step_tokens a = n_ctx a * batch_size a * g_accum a"

text \<open>\<^verbatim>\<open>save\<close> (lines 206 to 215).\<close>

definition save :: "args \<Rightarrow> run_state \<Rightarrow> run_state" where
  "save a s =
     (if \<not> is_main a then s
      else
        let model_path = ''model.pt'';
            optim_path = ''optim.pt'';
            d1 = fold backup [model_path, optim_path] (run_path s);
            d2 = write_file model_path (ModelCheckpoint (updates s) (step s)) d1;
            d3 = write_file optim_path (OptimCheckpoint (updates s)) d2
        in emit (Saved (updates s) (step s)) (s\<lparr>run_path := d3\<rparr>))"

text \<open>\<^verbatim>\<open>validate\<close> (lines 182 to 187), with \<^verbatim>\<open>get_valid_loss\<close> on the current parameters.\<close>

definition validate :: "args \<Rightarrow> env \<Rightarrow> action" where
  "validate a e s =
     (if \<not> is_main a then (Next, s)
      else
        (case get_valid_loss (model_loss e (updates s)) (valid_dataset e) (batch_size a) (n_ctx a) of
           Inl err \<Rightarrow> (Raise err, s)
         | Inr v \<Rightarrow> (Next, emit (WriteEventValidLoss (step s * step_tokens a) v) s)))"

text \<open>
  \<^verbatim>\<open>torch.split(context, split_size)\<close> along the first dimension: a negative size, or a
  zero size on a non-empty tensor, raises; otherwise there are
  \<^verbatim>\<open>max((rows + split_size - 1) / split_size, 1)\<close> chunks of \<^verbatim>\<open>split_size\<close> rows, the last
  one possibly shorter.
\<close>

definition torch_split :: "'a list \<Rightarrow> int \<Rightarrow> error + 'a list list" where
  "torch_split rows split_size =
     (if split_size < 0 then Inl RuntimeError
      else if split_size = 0 then (if rows = [] then Inr [[]] else Inl RuntimeError)
      else
        let n = nat split_size
        in Inr (map (\<lambda>k. take n (drop (k * n) rows))
                  [0..<max ((length rows + n - 1) div n) 1]))"

text \<open>
  \<^verbatim>\<open>train_step\<close> (lines 136 to 149). The state is returned unchanged when the step
  raises: no handler of the program looks at it.
\<close>

definition train_step :: "args \<Rightarrow> env \<Rightarrow> action" where
  "train_step a e s =
     (let n = batch_size a * accum_gradients a
      in case gen_training_batch (\<lambda>k. entropy e (draws s + k)) (train_dataset e) (n_ctx a) n of
           Inl err \<Rightarrow> (Raise err, s)
         | Inr context \<Rightarrow>
             (case torch_split context (batch_size a) of
                Inl err \<Rightarrow> (Raise err, s)
              | Inr micro_batches \<Rightarrow>
                  (case loss_loop (model_loss e (updates s)) micro_batches (loss_meter s) of
                     Inl err \<Rightarrow> (Raise err, s)
                   | Inr meter \<Rightarrow>
                       (Next, emit Updated
                          (s\<lparr>draws := draws s + nat n,
                             loss_meter := meter,
                             updates := Suc (updates s)\<rparr>)))))"

text \<open>\<^verbatim>\<open>max_tokens and step * step_tokens >= max_tokens\<close> (line 160).\<close>

definition budget_reached :: "args \<Rightarrow> run_state \<Rightarrow> bool" where
  "budget_reached a s =
     (case max_tokens a of
        None \<Rightarrow> False
      | Some m \<Rightarrow> m \<noteq> 0 \<and> m \<le> step s * step_tokens a)"

definition print_max_tokens :: "args \<Rightarrow> action" where
  "print_max_tokens a s =
     (Next, emit (PrintF ''max_tokens {max_tokens} reached, saving and exiting''
                    [case max_tokens a of None \<Rightarrow> 0 | Some m \<Rightarrow> m]) s)"

text \<open>
  \<^verbatim>\<open>epoch_pbar.set_postfix\<close> evaluates \<^verbatim>\<open>loss_meter.mean()\<close> in every process; the bar
  is displayed on the primary only.
\<close>

definition set_postfix :: "args \<Rightarrow> action" where
  "set_postfix a s =
     (case mean (loss_meter s) of
        Inl err \<Rightarrow> (Raise err, s)
      | Inr m \<Rightarrow> (Next, if is_main a then emit (SetPostfix (step s) m) s else s))"

definition write_event_loss :: "args \<Rightarrow> action" where
  "write_event_loss a s =
     (case mean (loss_meter s) of
        Inl err \<Rightarrow> (Raise err, s)
      | Inr m \<Rightarrow> (Next, emit (WriteEventLoss (step s * step_tokens a) m) s))"

text \<open>The body of the inner loop of \<^verbatim>\<open>train\<close> (lines 158 to 177).\<close>

definition loop_body :: "args \<Rightarrow> env \<Rightarrow> action" where
  "loop_body a e =
     block
       [if_then (\<lambda>s. divides_step (step s) (save_every a))
          (stmt (\<lambda>s. (Next, save a s))),
        if_then (\<lambda>s. Inr (budget_reached a s))
          (block
             [stmt (print_max_tokens a),
              stmt (\<lambda>s. (Next, save a s)),
              stmt (validate a e),
              stmt (\<lambda>s. (Return, s))]),
        stmt (train_step a e),
        stmt (\<lambda>s. (Next, s\<lparr>step := step s + 1\<rparr>)),
        stmt (set_postfix a),
        if_then (\<lambda>s. if is_main a then divides_step (step s) (log_every a) else Inr False)
          (block
             [stmt (write_event_loss a),
              stmt (\<lambda>s. (Next, s\<lparr>loss_meter := reset (loss_meter s)\<rparr>))]),
        if_then (\<lambda>s. divides_step (step s) (validate_every_of a))
          (stmt (validate a e))]"

text \<open>
  \<^verbatim>\<open>train\<close> (lines 151 to 180): \<^verbatim>\<open>epochs\<close> rounds of \<^verbatim>\<open>epoch_size\<close> iterations, each
  round followed by \<^verbatim>\<open>save()\<close> and \<^verbatim>\<open>validate()\<close>. The \<^verbatim>\<open>return\<close> of the body ends the
  call.
\<close>

definition train :: "args \<Rightarrow> env \<Rightarrow> int \<Rightarrow> action" where
  "train a e epoch_size s =
     (case repeat (nat (epochs a))
             (block
                [repeat (nat epoch_size) (loop_body a e),
                 stmt (\<lambda>s. (Next, save a s)),
                 stmt (validate a e)]) s of
        (sig, s') \<Rightarrow> (case sig of Next \<Rightarrow> (Next, s') | Return \<Rightarrow> (Next, s') | Raise err \<Rightarrow> (sig, s')))"

text \<open>The start of \<^verbatim>\<open>main\<close>: the assertion of line 61.\<close>

definition check_accum :: "args \<Rightarrow> action" where
  "check_accum a s =
     (if g_accum a mod world_size a = 0 then (Next, s)
      else (Raise (AssertionError AccumDividesWorld), s))"

text \<open>Lines 66 to 73: the run directory and its mark \<^verbatim>\<open>.lm\<close>.\<close>

definition assert_run_path_mark :: action where
  "assert_run_path_mark s =
     (if files (run_path s) ''.lm'' \<noteq> None then (Next, s)
      else (Raise (AssertionError RunMarkExists), s))"

definition prepare_run_path :: "args \<Rightarrow> action" where
  "prepare_run_path a =
     if_then (\<lambda>s. Inr (is_main a))
       (block
          [if_then (\<lambda>s. Inr (clean a \<and> dir_exists (run_path s)))
             (block
                [assert_run_path_mark,
                 (\<lambda>s. (Next, emit Removed (s\<lparr>run_path := rmtree (run_path s)\<rparr>)))]),
           (\<lambda>s. (Next, s\<lparr>run_path := mkdir (run_path s)\<rparr>)),
           (\<lambda>s. (Next, s\<lparr>run_path := touch ''.lm'' (run_path s)\<rparr>))])"

text \<open>
  Lines 75 to 124: the tokenizer, \<^verbatim>\<open>params.json\<close>, the corpora, the model with its
  optimizer and meter, and the process group. These calls into the libraries are taken to
  return.
\<close>

definition load_all :: "args \<Rightarrow> env \<Rightarrow> action" where
  "load_all a e =
     block
       [(\<lambda>s. (Next, emit LoadTokenizer s)),
        if_then (\<lambda>s. Inr (is_main a))
          (\<lambda>s. (Next, emit PrintParams
                   (s\<lparr>run_path := write_file ''params.json'' ParamsJson (run_path s)\<rparr>))),
        (\<lambda>s. (Next, emit (PrintF ''Loading dataset from {dataset_path}'' []) s)),
        (\<lambda>s. (Next, emit LoadDatasets s)),
        (\<lambda>s. (Next, emit (PrintF ''Train dataset has {len(train_dataset):,} tokens''
                             [int (length (train_dataset e))]) s)),
        (\<lambda>s. (Next, emit (PrintF ''Validation dataset has {len(valid_dataset):,} tokens''
                             [int (length (valid_dataset e))]) s)),
        (\<lambda>s. (Next, emit CreateModel (s\<lparr>updates := 0, loss_meter := meter_init\<rparr>))),
        if_then (\<lambda>s. Inr (device_id a \<noteq> None))
          (\<lambda>s. (Next, emit (InitProcessGroup (case device_id a of None \<Rightarrow> 0 | Some r \<Rightarrow> r)) s))]"

text \<open>
  How the process ends: \<^verbatim>\<open>main\<close> returns, an exception is not caught, or
  \<^verbatim>\<open>sys.exit\<close> is called. The exit status of the interpreter is 0 in the first case and
  1 for an exception that is not caught.
\<close>

datatype outcome = Returned | Uncaught error | SysExit int

fun exit_status :: "outcome \<Rightarrow> int" where
  "exit_status Returned = 0"
| "exit_status (Uncaught err) = 1"
| "exit_status (SysExit n) = n"

text \<open>Lines 217 to 227: the validate-only mode, or the training with its handler.\<close>

definition run_mode :: "args \<Rightarrow> env \<Rightarrow> int \<Rightarrow> run_state \<Rightarrow> outcome \<times> run_state" where
  "run_mode a e epoch_size s =
     (if only_validate a then
        (Returned, if is_main a then emit (Print ''Validation loss: {validate():.4f}'') s else s)
      else
        (case train a e epoch_size s of
           (sig, s') \<Rightarrow>
             (case sig of
                Raise err \<Rightarrow>
                  if err = KeyboardInterrupt then
                    (if is_main a
                     then (SysExit 1, save a (emit (Print ''Interrupted, saving'') s'))
                     else (Returned, s'))
                  else (Uncaught err, s')
              | Next \<Rightarrow> (Returned, s')
              | Return \<Rightarrow> (Returned, s'))))"

text \<open>Lines 57 to 126: everything before the first device batch, up to \<^verbatim>\<open>step = 1\<close>.\<close>

definition startup :: "args \<Rightarrow> env \<Rightarrow> action" where
  "startup a e =
     block [check_accum a, prepare_run_path a, load_all a e,
            (\<lambda>s. (Next, s\<lparr>step := 1\<rparr>))]"

text \<open>
  The body of \<^verbatim>\<open>main\<close> from line 57 on, in one process, with \<^verbatim>\<open>n_devices\<close> known.
\<close>

definition main_body :: "args \<Rightarrow> env \<Rightarrow> run_state \<Rightarrow> outcome \<times> run_state" where
  "main_body a e s =
     (case startup a e s of
        (sig, s1) \<Rightarrow>
          (case sig of
             Raise err \<Rightarrow> (Uncaught err, s1)
           | Return \<Rightarrow> (Returned, s1)
           | Next \<Rightarrow>
               (case floordiv (int (length (train_dataset e))) (step_tokens a) of
                  Inl err \<Rightarrow> (Uncaught err, s1)
                | Inr epoch_size \<Rightarrow> run_mode a e epoch_size s1)))"

text \<open>
  The state in which a process starts: the run directory as it is found, and the
  interrupt that will come, if any.
\<close>

definition start_state :: "run_dir \<Rightarrow> nat option \<Rightarrow> run_state" where
  "start_state d p =
     \<lparr>step = 1, updates = 0, loss_meter = meter_init, draws = 0,
      run_path = d, events = [], pending = p\<rparr>"

text \<open>
  \<^verbatim>\<open>main\<close> with lines 49 to 55: with several devices one worker per device is spawned
  through \<^verbatim>\<open>_main_mp\<close>, each with its \<^verbatim>\<open>device_id\<close>; each worker is its own process.
\<close>

datatype run = Single "outcome \<times> run_state" | Spawned "(outcome \<times> run_state) list"

definition main :: "args \<Rightarrow> env \<Rightarrow> run_dir \<Rightarrow> nat option \<Rightarrow> run" where
  "main a e d p =
     (case n_devices a of
        None \<Rightarrow>
          (let n = device_count e
           in if 1 < n
              then Spawned (map (\<lambda>i. main_body (a\<lparr>device_id := Some (int i), n_devices := Some n\<rparr>) e
                                        (start_state d p)) [0..<nat n])
              else Single (main_body (a\<lparr>n_devices := Some n\<rparr>) e (start_state d p)))
      | Some n \<Rightarrow> Single (main_body a e (start_state d p)))"

section \<open>Scenarios\<close>

text \<open>
  A sequence of \<^verbatim>\<open>save()\<close> calls: before the k-th call the training has brought the
  model and optimizer to \<open>fst (gens ! k)\<close> updates and the counter to \<open>snd (gens ! k)\<close>.
\<close>

definition saves :: "args \<Rightarrow> (nat \<times> int) list \<Rightarrow> run_state \<Rightarrow> run_state" where
  "saves a gens s = fold (\<lambda>g s. save a (s\<lparr>updates := fst g, step := snd g\<rparr>)) gens s"

text \<open>Which events are checkpoints, and which are validation reports.\<close>

fun is_saved :: "event \<Rightarrow> bool" where
  "is_saved (Saved u st) = True"
| "is_saved ev = False"

fun is_valid_loss :: "event \<Rightarrow> bool" where
  "is_valid_loss (WriteEventValidLoss t v) = True"
| "is_valid_loss ev = False"

text \<open>
  A small run: a corpus of 100 tokens, contexts of 2 tokens in batches of 2 on one
  process, so that a step takes 4 tokens, and a budget of 12 tokens, three times that.
\<close>

definition demo_args :: args where
  "demo_args =
     \<lparr>epochs = 10, batch_size = 2, g_accum_gradients = None, n_ctx = 2, clean = False,
      log_every = 1, save_every = 1000, validate_every = None, only_validate = False,
      max_tokens = Some 12, device_id = None, n_devices = Some 0\<rparr>"

definition demo_env :: env where
  "demo_env =
     \<lparr>device_count = 0, train_dataset = [0..<100], valid_dataset = [0..<7],
      entropy = (\<lambda>k. 3 * k + 1), model_loss = (\<lambda>u b. Inr (of_nat (length b)))\<rparr>"

definition demo_dir :: run_dir where
  "demo_dir = \<lparr>dir_exists = False, files = (\<lambda>name. None)\<rparr>"

text \<open>
  A file of the run directory has the content \<open>v\<close>, and the tree has been removed so far
  or not, as \<open>r\<close> says.
\<close>

definition untouched :: "string \<Rightarrow> blob option \<Rightarrow> bool \<Rightarrow> run_state \<Rightarrow> bool" where
  "untouched name v r s = (files (run_path s) name = v \<and> (Removed \<in> set (events s)) = r)"

section \<open>Properties of the meter and of the batch sampler\<close>

subsection \<open>Auxiliary facts\<close>

lemma concat_batch_loop: "concat (batch_loop it bs b) = b @ it"
  by (induction it arbitrary: b) (auto simp: Let_def)

lemma batch_loop_nonempty: "batch_loop it bs b \<noteq> []"
  by (induction it arbitrary: b) (auto simp: Let_def)

lemma last_batch_loop:
  "0 < n \<Longrightarrow> length b < n \<Longrightarrow> (length b + length it) mod n = 0 \<Longrightarrow>
   last (batch_loop it (int n) b) = []"
proof (induction it arbitrary: b)
  case Nil
  then show ?case by simp
next
  case (Cons x it)
  show ?case
  proof (cases "Suc (length b) = n")
    case True
    have "length b + length (x # it) = n + length it" using True by simp
    then have "(n + length it) mod n = 0" using Cons.prems(3) by metis
    then have "length it mod n = 0" by (simp only: mod_add_self1)
    then have "last (batch_loop it (int n) []) = []"
      using Cons.IH[of "[]"] Cons.prems(1) by simp
    moreover have "batch_loop it (int n) [] \<noteq> []" by (rule batch_loop_nonempty)
    ultimately show ?thesis using True by (auto simp: Let_def)
  next
    case False
    then have lt: "length (b @ [x]) < n" using Cons.prems by simp
    have md: "(length (b @ [x]) + length it) mod n = 0" using Cons.prems by simp
    have "last (batch_loop it (int n) (b @ [x])) = []"
      by (rule Cons.IH[OF Cons.prems(1) lt md])
    then show ?thesis using False by (auto simp: Let_def)
  qed
qed

lemma batch_it_last_empty:
  "int (length it) = int k * bs \<Longrightarrow> last (batch_it it bs) = []"
proof (cases "0 < bs")
  case True
  assume h: "int (length it) = int k * bs"
  obtain n where n: "bs = int n" "0 < n" using True by (metis zero_less_imp_eq_int)
  have "length it = k * n" using h n by (metis of_nat_eq_iff of_nat_mult)
  then have "(length ([]::'a list) + length it) mod n = 0" by simp
  then show ?thesis unfolding batch_it_def n(1) using last_batch_loop[of n "[]" it] n(2) by simp
next
  case False
  assume h: "int (length it) = int k * bs"
  have "int k * bs \<le> 0" using False by (simp add: mult_le_0_iff)
  then have "int (length it) \<le> 0" using h by simp
  then have "it = []" by simp
  then show ?thesis by (simp add: batch_it_def)
qed

lemma batch_it_split:
  "last (batch_it ws bs) = [] \<Longrightarrow> batch_it ws bs = butlast (batch_it ws bs) @ [[]]"
  using batch_loop_nonempty[of ws bs "[]"] append_butlast_last_id[of "batch_it ws bs"]
  by (simp add: batch_it_def)

lemma range_len_valid:
  assumes "0 < C"
  shows "range_len 0 (int L - int C) (int C) = (L - 1) div C"
proof (cases "L \<le> C")
  case True
  then have "(L - 1) div C = 0" using assms by simp
  then show ?thesis using True assms by (simp add: range_len_def)
next
  case False
  then obtain d where d: "L = C + Suc d" by (metis less_imp_Suc_add not_le add_Suc_right)
  have "(int L - int C - 1) div int C + 1 = int (d div C + 1)"
    using d by (simp add: zdiv_int)
  moreover have "(L - 1) div C = d div C + 1" using d assms by simp
  ultimately show ?thesis using False assms by (simp add: range_len_def)
qed

lemma py_slice_window:
  "a + C \<le> length xs \<Longrightarrow> py_slice xs (int a) (int a + int C) = take C (drop a xs)"
  by (simp add: py_slice_def slice_bound_def Let_def nat_add_distrib min_def)

lemma window_bound:
  fixes C k L :: nat
  assumes "0 < C" "k < (L - 1) div C"
  shows "k * C + C \<le> L"
proof -
  have "Suc k \<le> (L - 1) div C" using assms by simp
  then have "Suc k * C \<le> ((L - 1) div C) * C" by (rule mult_le_mono1)
  also have "\<dots> \<le> L - 1" by simp
  finally show ?thesis by simp
qed

lemma valid_windows_eq:
  assumes "0 < C"
  shows "valid_windows ds (int C) =
         Inr (map (\<lambda>k. take C (drop (k * C) ds)) [0..<(length ds - 1) div C])"
proof -
  have "\<And>k. k < (length ds - 1) div C \<Longrightarrow>
          py_slice ds (int k * int C) (int k * int C + int C) = take C (drop (k * C) ds)"
  proof -
    fix k assume "k < (length ds - 1) div C"
    then have "k * C + C \<le> length ds" by (rule window_bound[OF assms])
    then show "py_slice ds (int k * int C) (int k * int C + int C) = take C (drop (k * C) ds)"
      using py_slice_window[of "k * C" C ds] by simp
  qed
  then show ?thesis
    using assms by (simp add: valid_windows_def py_range_def range_len_valid comp_def)
qed

lemma valid_windows_short:
  "0 < C \<Longrightarrow> int (length ds) \<le> C \<Longrightarrow> valid_windows ds C = Inr []"
  by (simp add: valid_windows_def py_range_def range_len_def)

lemma concat_windows:
  "n * C \<le> length ds \<Longrightarrow>
   concat (map (\<lambda>k. take C (drop (k * C) ds)) [0..<n]) = take (n * C) ds"
proof (induction n)
  case 0
  then show ?case by simp
next
  case (Suc n)
  then have "concat (map (\<lambda>k. take C (drop (k * C) ds)) [0..<n]) = take (n * C) ds" by simp
  moreover have "take (Suc n * C) ds = take (n * C) ds @ take C (drop (n * C) ds)"
    using take_add[of "n * C" C ds] by (simp add: add.commute)
  ultimately show ?case by simp
qed

lemma draw_indices_ok:
  "0 < high \<Longrightarrow> draw_indices rnd high k n =
     Inr (map (\<lambda>i. int (rnd i mod nat high)) [k..<k + n])"
proof (induction n arbitrary: k)
  case 0
  then show ?case by simp
next
  case (Suc n)
  have "[k..<k + Suc n] = k # [Suc k..<Suc k + n]" by (simp add: upt_rec)
  then show ?case using Suc by (simp add: randint_def)
qed

lemma gen_training_batch_eq:
  fixes ds :: "'a list" and C B :: nat
  assumes "C < length ds"
  shows "gen_training_batch rnd ds (int C) (int B) =
           Inr (map (\<lambda>i. take C (drop (rnd i mod (length ds - C)) ds)) [0..<B])"
proof -
  let ?h = "length ds - C"
  have h: "0 < int (length ds) - int C" "nat (int (length ds) - int C) = ?h" using assms by auto
  have off: "\<And>i. rnd i mod ?h < ?h" using assms by simp
  have bnd: "\<And>i. rnd i mod ?h + C \<le> length ds"
  proof -
    fix i
    show "rnd i mod ?h + C \<le> length ds" using off[of i] assms by linarith
  qed
  have sl: "\<And>i. py_slice ds (int (rnd i mod ?h)) (int (rnd i mod ?h) + int C)
             = take C (drop (rnd i mod ?h) ds)"
    using bnd by (rule py_slice_window)
  show ?thesis
    using h sl by (simp add: gen_training_batch_def draw_indices_ok comp_def)
qed

lemma loss_loop_append:
  "loss_loop ml (xs @ ys) m =
     (case loss_loop ml xs m of Inl e \<Rightarrow> Inl e | Inr m' \<Rightarrow> loss_loop ml ys m')"
  by (induction xs arbitrary: m) (auto split: sum.splits)

lemma mean_single: "mean (update l meter_init) = Inr l"
  by (simp add: mean_def update_def meter_init_def statistics_mean_def)

subsection \<open>The metric aggregator\<close>

text \<open>
  Claim C6. On a fresh \<^verbatim>\<open>AverageMeter\<close>, \<^verbatim>\<open>mean()\<close> after \<^verbatim>\<open>update(a); update(b)\<close> is
  \<open>(a + b) / 2\<close>; after \<^verbatim>\<open>reset()\<close>, \<^verbatim>\<open>update(c); mean()\<close> is \<open>c\<close>, whatever the meter
  held before the reset.
\<close>

theorem average_meter_mean_reset:
  "mean (update b (update a meter_init)) = Inr ((a + b) / 2)
   \<and> mean (update c (reset (update b (update a meter_init)))) = Inr c
   \<and> mean (update c (reset m)) = Inr c"
  by (simp add: mean_def update_def reset_def meter_init_def statistics_mean_def)

subsection \<open>The validation iterator\<close>

text \<open>
  Claim C2, as the code has it. For a context length \<open>C > 0\<close> and a corpus of length
  \<open>L\<close>, the batches of \<^verbatim>\<open>_valid_batch_iter\<close>, taken in order, hold the windows
  \<open>[0, C), [C, 2C), \<dots>\<close> once each, every one of length \<open>C\<close>; there are
  \<open>(L - 1) div C\<close> of them, they cover the first \<open>C * ((L - 1) div C)\<close> positions of the
  corpus without gap or overlap, and the remaining positions (at least one, and a whole
  window when \<open>C\<close> divides \<open>L\<close>) are not visited.
\<close>

theorem valid_batch_iter_windows:
  assumes "0 < C"
  shows "\<exists>batches. valid_batch_iter ds bs (int C) = Inr batches
     \<and> concat batches = map (\<lambda>k. take C (drop (k * C) ds)) [0..<(length ds - 1) div C]
     \<and> (\<forall>w \<in> set (concat batches). length w = C)
     \<and> concat (concat batches) = take (((length ds - 1) div C) * C) ds
     \<and> length (concat (concat batches)) = C * ((length ds - 1) div C)"
proof -
  let ?n = "(length ds - 1) div C"
  let ?ws = "map (\<lambda>k. take C (drop (k * C) ds)) [0..<?n]"
  have vb: "valid_batch_iter ds bs (int C) = Inr (batch_it ?ws bs)"
    using assms by (simp add: valid_batch_iter_def valid_windows_eq)
  have cc: "concat (batch_it ?ws bs) = ?ws" by (simp add: batch_it_def concat_batch_loop)
  have le: "?n * C \<le> length ds"
    by (meson diff_le_self div_times_less_eq_dividend le_trans)
  have len: "\<forall>w \<in> set ?ws. length w = C"
  proof
    fix w assume "w \<in> set ?ws"
    then obtain k where k: "k < ?n" "w = take C (drop (k * C) ds)" by auto
    have "k * C + C \<le> length ds" by (rule window_bound[OF assms k(1)])
    then show "length w = C" using k(2) by simp
  qed
  have fl: "concat ?ws = take (?n * C) ds" using le by (rule concat_windows)
  have tot: "length (concat ?ws) = C * ?n" using fl le by (simp add: mult.commute)
  show ?thesis
  proof (intro exI conjI)
    show "valid_batch_iter ds bs (int C) = Inr (batch_it ?ws bs)" by (rule vb)
    show "concat (batch_it ?ws bs) = ?ws" by (rule cc)
    show "\<forall>w \<in> set (concat (batch_it ?ws bs)). length w = C"
      unfolding cc by (rule len)
    show "concat (concat (batch_it ?ws bs)) = take (?n * C) ds"
      unfolding cc by (rule fl)
    show "length (concat (concat (batch_it ?ws bs))) = C * ?n"
      unfolding cc by (rule tot)
  qed
qed

theorem valid_batch_iter_windows_witness:
  "(0 :: nat) < 2
   \<and> valid_batch_iter [0, 1, 2, 3, 4 :: nat] 1 (int 2) = Inr [[[0, 1]], [[2, 3]], []]
   \<and> concat [[[0, 1]], [[2, 3]], []]
       = map (\<lambda>k. take 2 (drop (k * 2) [0, 1, 2, 3, 4 :: nat])) [0..<2]
   \<and> length (concat (concat [[[0, 1]], [[2, 3 :: nat]], []]))
       = 2 * ((length [0, 1, 2, 3, 4 :: nat] - 1) div 2)"
proof -
  have v: "valid_batch_iter [0, 1, 2, 3, 4 :: nat] 1 (int 2) = Inr [[[0, 1]], [[2, 3]], []]"
    by (simp add: valid_batch_iter_def valid_windows_def py_range_def range_len_def py_slice_def
        slice_bound_def upt_rec batch_it_def)
  show ?thesis
    using valid_batch_iter_windows[of 2 "[0, 1, 2, 3, 4 :: nat]" 1] v by (simp add: upt_rec)
qed

text \<open>
  Claim C2 as stated fails: on a corpus of 4 tokens with context length 2 the only window
  is \<open>[0, 2)\<close>, so 2 positions are covered, where \<open>C * floor((L - C) / C + 1)\<close> is 4.
\<close>

theorem valid_batch_iter_positions_counterexample:
  "valid_batch_iter [0, 1, 2, 3 :: nat] 1 2 = Inr [[[0, 1]], []]
   \<and> int (length (concat (concat [[[0, 1 :: nat]], []]))) \<noteq> 2 * \<lfloor>(4 - 2) / (2 :: rat) + 1\<rfloor>"
  by (simp add: valid_batch_iter_def valid_windows_def py_range_def range_len_def
      py_slice_def slice_bound_def batch_it_def Let_def)

subsection \<open>The training sampler\<close>

text \<open>
  Claim C4. For a corpus of length \<open>L\<close>, a context length \<open>C < L\<close> and a batch size
  \<open>B\<close>, \<^verbatim>\<open>_gen_training_batch\<close> returns \<open>B\<close> slices; the i-th starts at the offset that
  the i-th draw of the generator gives in \<open>[0, L - C)\<close>, lies within \<open>[0, L)\<close> and has
  length \<open>C\<close>. Every list of \<open>B\<close> offsets of that range is the result of some draws: no
  draw constrains another.
\<close>

theorem gen_training_batch_slices:
  fixes ds :: "'a list" and C B :: nat
  assumes "C < length ds"
  shows "gen_training_batch rnd ds (int C) (int B) =
           Inr (map (\<lambda>i. take C (drop (rnd i mod (length ds - C)) ds)) [0..<B])
     \<and> (\<forall>i < B. rnd i mod (length ds - C) < length ds - C
          \<and> rnd i mod (length ds - C) + C \<le> length ds
          \<and> length (take C (drop (rnd i mod (length ds - C)) ds)) = C)
     \<and> (\<forall>offs. length offs = B \<and> (\<forall>i < B. offs ! i < length ds - C) \<longrightarrow>
          gen_training_batch (\<lambda>i. offs ! i) ds (int C) (int B) =
            Inr (map (\<lambda>off. take C (drop off ds)) offs))"
proof (intro conjI allI impI)
  let ?h = "length ds - C"
  show "gen_training_batch rnd ds (int C) (int B) =
           Inr (map (\<lambda>i. take C (drop (rnd i mod ?h) ds)) [0..<B])"
    by (rule gen_training_batch_eq[OF assms])
  fix i
  show off: "rnd i mod ?h < ?h" using assms by simp
  show bnd: "rnd i mod ?h + C \<le> length ds" using off assms by linarith
  show "length (take C (drop (rnd i mod ?h) ds)) = C" using bnd by simp
next
  fix offs :: "nat list"
  assume h: "length offs = B \<and> (\<forall>i < B. offs ! i < length ds - C)"
  have "map (\<lambda>i. take C (drop ((offs ! i) mod (length ds - C)) ds)) [0..<B]
        = map (\<lambda>i. take C (drop (offs ! i) ds)) [0..<B]"
    using h by simp
  also have "\<dots> = map (\<lambda>off. take C (drop off ds)) (map (\<lambda>i. offs ! i) [0..<B])"
    by (simp add: comp_def)
  also have "map (\<lambda>i. offs ! i) [0..<B] = offs"
    using h map_nth[of offs] by simp
  finally show "gen_training_batch (\<lambda>i. offs ! i) ds (int C) (int B) =
            Inr (map (\<lambda>off. take C (drop off ds)) offs)"
    using gen_training_batch_eq[OF assms, of "\<lambda>i. offs ! i" B] by simp
qed

theorem gen_training_batch_slices_witness:
  "(2 :: nat) < length [10, 11, 12, 13, 14 :: nat]
   \<and> gen_training_batch (\<lambda>k. 7 * k + 3) [10, 11, 12, 13, 14 :: nat] (int 2) (int 3)
      = Inr [[10, 11], [11, 12], [12, 13]]"
  using gen_training_batch_slices[of 2 "[10, 11, 12, 13, 14 :: nat]" "\<lambda>k. 7 * k + 3" 3]
  by (simp add: upt_rec)

subsection \<open>The final batch of the batching helper\<close>

text \<open>
  Claim C10. \<^verbatim>\<open>_batch_it\<close> always yields a last batch, and that batch is empty when the
  length of the input is zero or a multiple of \<^verbatim>\<open>batch_size\<close>. So when the number of
  validation windows is a multiple of \<^verbatim>\<open>batch_size\<close>, the last batch of
  \<^verbatim>\<open>_valid_batch_iter\<close> is empty and \<^verbatim>\<open>get_valid_loss\<close> calls the model on it after the
  full batches; a corpus no longer than a positive context length has no window, and the
  empty batch is then the only one.
\<close>

theorem batch_it_final_batch_empty:
  "(int (length it) = int k * bs \<longrightarrow> last (batch_it it bs) = [])
   \<and> (valid_windows ds C = Inr ws \<and> int (length ws) = int k' * bs \<longrightarrow>
        valid_batch_iter ds bs C = Inr (butlast (batch_it ws bs) @ [[]])
        \<and> get_valid_loss ml ds bs C =
            (case loss_loop ml (butlast (batch_it ws bs)) meter_init of
               Inl e \<Rightarrow> Inl e
             | Inr m \<Rightarrow> (case ml [] of Inl e \<Rightarrow> Inl e | Inr l \<Rightarrow> mean (update l m))))
   \<and> (0 < C \<and> int (length ds) \<le> C \<longrightarrow>
        valid_batch_iter ds bs C = Inr [[]]
        \<and> get_valid_loss ml ds bs C = (case ml [] of Inl e \<Rightarrow> Inl e | Inr l \<Rightarrow> Inr l))"
proof (intro conjI impI)
  assume "int (length it) = int k * bs"
  then show "last (batch_it it bs) = []" by (rule batch_it_last_empty)
next
  assume h: "valid_windows ds C = Inr ws \<and> int (length ws) = int k' * bs"
  then have "last (batch_it ws bs) = []" using batch_it_last_empty[of ws k' bs] by simp
  then have sp: "batch_it ws bs = butlast (batch_it ws bs) @ [[]]" by (rule batch_it_split)
  have vb: "valid_batch_iter ds bs C = Inr (batch_it ws bs)"
    using h by (simp add: valid_batch_iter_def)
  show "valid_batch_iter ds bs C = Inr (butlast (batch_it ws bs) @ [[]])"
    using vb sp by simp
  have "get_valid_loss ml ds bs C =
          (case loss_loop ml (butlast (batch_it ws bs) @ [[]]) meter_init of
             Inl e \<Rightarrow> Inl e | Inr losses \<Rightarrow> mean losses)"
    using vb sp by (simp add: get_valid_loss_def)
  then show "get_valid_loss ml ds bs C =
            (case loss_loop ml (butlast (batch_it ws bs)) meter_init of
               Inl e \<Rightarrow> Inl e
             | Inr m \<Rightarrow> (case ml [] of Inl e \<Rightarrow> Inl e | Inr l \<Rightarrow> mean (update l m)))"
    by (simp add: loss_loop_append split: sum.splits)
next
  assume h: "0 < C \<and> int (length ds) \<le> C"
  then have w: "valid_windows ds C = Inr []" by (simp add: valid_windows_short)
  then show vb: "valid_batch_iter ds bs C = Inr [[]]"
    by (simp add: valid_batch_iter_def batch_it_def)
  show "get_valid_loss ml ds bs C = (case ml [] of Inl e \<Rightarrow> Inl e | Inr l \<Rightarrow> Inr l)"
    using vb by (simp add: get_valid_loss_def mean_single split: sum.splits)
qed

theorem batch_it_final_batch_empty_witness:
  "int (length [1, 2, 3, 4 :: nat]) = int 2 * 2
   \<and> last (batch_it [1, 2, 3, 4 :: nat] 2) = []
   \<and> valid_windows [0, 1, 2, 3, 4 :: nat] 2 = Inr [[0, 1], [2, 3]]
   \<and> int (length [[0, 1], [2, 3 :: nat]]) = int 1 * 2
   \<and> valid_batch_iter [0, 1, 2, 3, 4 :: nat] 2 2 = Inr [[[0, 1], [2, 3]], []]
   \<and> get_valid_loss (\<lambda>b. if b = [] then Inl ModelError else Inr 1) [0, 1, 2, 3, 4 :: nat] 2 2
       = Inl ModelError
   \<and> (0 :: int) < 5 \<and> int (length [0, 1, 2 :: nat]) \<le> 5
   \<and> valid_batch_iter [0, 1, 2 :: nat] 2 5 = Inr [[]]
   \<and> get_valid_loss (\<lambda>b. if b = [] then Inl ModelError else Inr 1) [0, 1, 2 :: nat] 2 5
       = Inl ModelError"
proof -
  have w: "valid_windows [0, 1, 2, 3, 4 :: nat] 2 = Inr [[0, 1], [2, 3]]"
    by (simp add: valid_windows_def py_range_def range_len_def py_slice_def slice_bound_def
        upt_rec)
  have b: "batch_it [[0, 1], [2, 3 :: nat]] 2 = [[[0, 1], [2, 3]], []]"
    by (simp add: batch_it_def)
  show ?thesis
    using batch_it_final_batch_empty[of "[1, 2, 3, 4 :: nat]" 2 2 "[0, 1, 2, 3, 4 :: nat]" 2
            "[[0, 1], [2, 3]]" 1 "\<lambda>b. if b = [] then Inl ModelError else Inr 1"]
          batch_it_final_batch_empty[of "[1, 2, 3, 4 :: nat]" 2 2 "[0, 1, 2 :: nat]" 5 "[]" 0
            "\<lambda>b. if b = [] then Inl ModelError else Inr 1"]
          w b
    by (simp add: update_def meter_init_def)
qed

section \<open>Properties of the checkpoint store\<close>

lemma prev_names [simp]:
  "prev_name ''model.pt'' = ''model-prev.pt''" "prev_name ''optim.pt'' = ''optim-prev.pt''"
  by (simp_all add: prev_name_def stem_of_def suffix_of_def last_ext_def)

lemma save_files:
  assumes "is_main a"
  shows "files (run_path (save a s)) =
     (let f = files (run_path s);
          f1 = (case f ''model.pt'' of None \<Rightarrow> f | Some b \<Rightarrow> f(''model-prev.pt'' \<mapsto> b));
          f2 = (case f1 ''optim.pt'' of None \<Rightarrow> f1 | Some b \<Rightarrow> f1(''optim-prev.pt'' \<mapsto> b))
      in f2(''model.pt'' \<mapsto> ModelCheckpoint (updates s) (step s),
            ''optim.pt'' \<mapsto> OptimCheckpoint (updates s)))"
  using assms
  by (simp add: save_def Let_def backup_def write_file_def emit_def split: option.splits)

lemma save_not_main: "\<not> is_main a \<Longrightarrow> save a s = s"
  by (simp add: save_def)

lemma saves_snoc: "saves a (gens @ [g]) s = save a ((saves a gens s)\<lparr>updates := fst g, step := snd g\<rparr>)"
  by (simp add: saves_def)

lemma saves_not_main: "\<not> is_main a \<Longrightarrow> run_path (saves a gens s) = run_path s \<and> events (saves a gens s) = events s"
  by (induction gens rule: rev_induct) (simp_all add: saves_def save_not_main)

lemma saves_other:
  assumes "name \<notin> {''model.pt'', ''optim.pt'', ''model-prev.pt'', ''optim-prev.pt''}"
  shows "files (run_path (saves a gens s)) name = files (run_path s) name"
proof (induction gens rule: rev_induct)
  case Nil
  then show ?case by (simp add: saves_def)
next
  case (snoc g gens)
  show ?case
  proof (cases "is_main a")
    case True
    then show ?thesis using snoc assms
      by (simp add: saves_snoc save_files Let_def split: option.splits)
  next
    case False
    then show ?thesis using saves_not_main[of a] by simp
  qed
qed

lemma saves_two:
  assumes "is_main a"
  shows "files (run_path (saves a (gens @ [g1, g2]) s)) =
     (files (run_path s))
       (''model-prev.pt'' \<mapsto> ModelCheckpoint (fst g1) (snd g1),
        ''optim-prev.pt'' \<mapsto> OptimCheckpoint (fst g1),
        ''model.pt'' \<mapsto> ModelCheckpoint (fst g2) (snd g2),
        ''optim.pt'' \<mapsto> OptimCheckpoint (fst g2))"
proof -
  let ?s1 = "saves a (gens @ [g1]) s"
  have m1: "files (run_path ?s1) ''model.pt'' = Some (ModelCheckpoint (fst g1) (snd g1))"
    using assms by (simp add: saves_snoc save_files Let_def)
  have o1: "files (run_path ?s1) ''optim.pt'' = Some (OptimCheckpoint (fst g1))"
    using assms by (simp add: saves_snoc save_files Let_def)
  have ot: "\<And>name. name \<notin> {''model.pt'', ''optim.pt'', ''model-prev.pt'', ''optim-prev.pt''}
      \<Longrightarrow> files (run_path ?s1) name = files (run_path s) name"
    by (rule saves_other)
  have "saves a (gens @ [g1, g2]) s = save a (?s1\<lparr>updates := fst g2, step := snd g2\<rparr>)"
    using saves_snoc[of a "gens @ [g1]" g2 s] by simp
  then show ?thesis
    using assms m1 o1 ot by (auto simp: save_files Let_def fun_eq_iff)
qed

text \<open>
  Claim save_keeps_two_generations. On the primary, \<^verbatim>\<open>save()\<close> first copies each of \<^verbatim>\<open>model.pt\<close> and
  \<^verbatim>\<open>optim.pt\<close> that exists to its \<^verbatim>\<open>-prev\<close> sibling, over any older backup, and then
  writes the new contents. After three or more calls the four checkpoint files hold the
  last two generations and nothing of the one before; every other file is as it was. On a
  process that is not the primary \<^verbatim>\<open>save()\<close> changes nothing.
\<close>

theorem save_keeps_two_generations:
  "(is_main a \<longrightarrow>
      files (run_path (save a s)) =
        (let f = files (run_path s);
             f1 = (case f ''model.pt'' of None \<Rightarrow> f | Some b \<Rightarrow> f(''model-prev.pt'' \<mapsto> b));
             f2 = (case f1 ''optim.pt'' of None \<Rightarrow> f1 | Some b \<Rightarrow> f1(''optim-prev.pt'' \<mapsto> b))
         in f2(''model.pt'' \<mapsto> ModelCheckpoint (updates s) (step s),
               ''optim.pt'' \<mapsto> OptimCheckpoint (updates s)))
      \<and> files (run_path (saves a (gens @ [g0, g1, g2]) s)) =
          (files (run_path s))
            (''model-prev.pt'' \<mapsto> ModelCheckpoint (fst g1) (snd g1),
             ''optim-prev.pt'' \<mapsto> OptimCheckpoint (fst g1),
             ''model.pt'' \<mapsto> ModelCheckpoint (fst g2) (snd g2),
             ''optim.pt'' \<mapsto> OptimCheckpoint (fst g2))
      \<and> (fst g0 \<noteq> fst g1 \<and> fst g0 \<noteq> fst g2 \<longrightarrow>
           (\<forall>name \<in> {''model.pt'', ''optim.pt'', ''model-prev.pt'', ''optim-prev.pt''}.
              files (run_path (saves a (gens @ [g0, g1, g2]) s)) name
                \<noteq> Some (ModelCheckpoint (fst g0) (snd g0))
              \<and> files (run_path (saves a (gens @ [g0, g1, g2]) s)) name
                \<noteq> Some (OptimCheckpoint (fst g0)))))
   \<and> (\<not> is_main a \<longrightarrow> save a s = s \<and> run_path (saves a gens s) = run_path s)"
proof (intro conjI impI)
  assume m: "is_main a"
  show "files (run_path (save a s)) =
        (let f = files (run_path s);
             f1 = (case f ''model.pt'' of None \<Rightarrow> f | Some b \<Rightarrow> f(''model-prev.pt'' \<mapsto> b));
             f2 = (case f1 ''optim.pt'' of None \<Rightarrow> f1 | Some b \<Rightarrow> f1(''optim-prev.pt'' \<mapsto> b))
         in f2(''model.pt'' \<mapsto> ModelCheckpoint (updates s) (step s),
               ''optim.pt'' \<mapsto> OptimCheckpoint (updates s)))"
    by (rule save_files[OF m])
  have two: "files (run_path (saves a (gens @ [g0, g1, g2]) s)) =
          (files (run_path s))
            (''model-prev.pt'' \<mapsto> ModelCheckpoint (fst g1) (snd g1),
             ''optim-prev.pt'' \<mapsto> OptimCheckpoint (fst g1),
             ''model.pt'' \<mapsto> ModelCheckpoint (fst g2) (snd g2),
             ''optim.pt'' \<mapsto> OptimCheckpoint (fst g2))"
    using saves_two[OF m, of "gens @ [g0]" g1 g2 s] by simp
  show "files (run_path (saves a (gens @ [g0, g1, g2]) s)) =
          (files (run_path s))
            (''model-prev.pt'' \<mapsto> ModelCheckpoint (fst g1) (snd g1),
             ''optim-prev.pt'' \<mapsto> OptimCheckpoint (fst g1),
             ''model.pt'' \<mapsto> ModelCheckpoint (fst g2) (snd g2),
             ''optim.pt'' \<mapsto> OptimCheckpoint (fst g2))"
    by (rule two)
  assume "fst g0 \<noteq> fst g1 \<and> fst g0 \<noteq> fst g2"
  then show "\<forall>name \<in> {''model.pt'', ''optim.pt'', ''model-prev.pt'', ''optim-prev.pt''}.
              files (run_path (saves a (gens @ [g0, g1, g2]) s)) name
                \<noteq> Some (ModelCheckpoint (fst g0) (snd g0))
              \<and> files (run_path (saves a (gens @ [g0, g1, g2]) s)) name
                \<noteq> Some (OptimCheckpoint (fst g0))"
    unfolding two by simp
next
  assume "\<not> is_main a"
  then show "save a s = s" by (rule save_not_main)
next
  assume "\<not> is_main a"
  then show "run_path (saves a gens s) = run_path s" using saves_not_main[of a gens s] by simp
qed

theorem save_keeps_two_generations_witness:
  "is_main demo_args
   \<and> map (files (run_path (saves demo_args ([] @ [(1, 2), (2, 3), (3, 4)])
              (start_state demo_dir None))))
        [''model.pt'', ''optim.pt'', ''model-prev.pt'', ''optim-prev.pt'']
      = [Some (ModelCheckpoint 3 4), Some (OptimCheckpoint 3),
         Some (ModelCheckpoint 2 3), Some (OptimCheckpoint 2)]
   \<and> \<not> is_main (demo_args\<lparr>device_id := Some 1\<rparr>)
   \<and> save (demo_args\<lparr>device_id := Some 1\<rparr>) (start_state demo_dir None)
      = start_state demo_dir None"
  using save_keeps_two_generations[of demo_args "start_state demo_dir None" "[]" "(1, 2)" "(2, 3)" "(3, 4)"]
        save_keeps_two_generations[of "demo_args\<lparr>device_id := Some 1\<rparr>" "start_state demo_dir None" "[]"
              "(1, 2)" "(2, 3)" "(3, 4)"]
  by (simp add: is_main_def demo_args_def start_state_def demo_dir_def)

section \<open>Properties of the start-up\<close>

lemma if_then_True: "if_then (\<lambda>s. Inr True) body s = body s"
  by (simp add: if_then_def)

lemma if_then_False: "if_then (\<lambda>s. Inr False) body s = (Next, s)"
  by (simp add: if_then_def)

lemma check_accum_eq:
  "check_accum a s =
     (if g_accum a mod world_size a = 0 then (Next, s)
      else (Raise (AssertionError AccumDividesWorld), s))"
  by (simp add: check_accum_def)

lemma prepare_run_path_eq:
  "prepare_run_path a s =
     (if \<not> is_main a then (Next, s)
      else if clean a \<and> dir_exists (run_path s) then
        (if files (run_path s) ''.lm'' = None then (Raise (AssertionError RunMarkExists), s)
         else (Next, s\<lparr>run_path := touch ''.lm'' (mkdir (rmtree (run_path s))),
                        events := events s @ [Removed]\<rparr>))
      else (Next, s\<lparr>run_path := touch ''.lm'' (mkdir (run_path s))\<rparr>))"
  by (simp add: prepare_run_path_def if_then_def assert_run_path_mark_def emit_def)

lemma load_all_eq:
  "load_all a e s =
     (Next, s\<lparr>updates := 0, loss_meter := meter_init,
              run_path := (if is_main a then write_file ''params.json'' ParamsJson (run_path s)
                           else run_path s),
              events := events s @ [LoadTokenizer] @ (if is_main a then [PrintParams] else [])
                 @ [PrintF ''Loading dataset from {dataset_path}'' [], LoadDatasets,
                    PrintF ''Train dataset has {len(train_dataset):,} tokens''
                      [int (length (train_dataset e))],
                    PrintF ''Validation dataset has {len(valid_dataset):,} tokens''
                      [int (length (valid_dataset e))],
                    CreateModel]
                 @ (case device_id a of None \<Rightarrow> [] | Some r \<Rightarrow> [InitProcessGroup r])\<rparr>)"
proof (cases "is_main a")
  case True
  show ?thesis
  proof (cases "device_id a")
    case None
    then show ?thesis using True
      by (simp add: load_all_def if_then_True if_then_False emit_def)
  next
    case (Some r)
    then show ?thesis using True
      by (simp add: load_all_def if_then_True if_then_False emit_def)
  qed
next
  case False
  show ?thesis
  proof (cases "device_id a")
    case None
    then show ?thesis using False
      by (simp add: load_all_def if_then_True if_then_False emit_def)
  next
    case (Some r)
    then show ?thesis using False
      by (simp add: load_all_def if_then_True if_then_False emit_def)
  qed
qed

lemma startup_accum_fail:
  "g_accum a mod world_size a \<noteq> 0 \<Longrightarrow>
   startup a e s = (Raise (AssertionError AccumDividesWorld), s)"
  by (simp add: startup_def check_accum_eq)

lemma startup_mark_fail:
  assumes "g_accum a mod world_size a = 0" "is_main a" "clean a" "dir_exists (run_path s)"
    "files (run_path s) ''.lm'' = None"
  shows "startup a e s = (Raise (AssertionError RunMarkExists), s)"
proof -
  have 1: "check_accum a s = (Next, s)" using assms(1) by (simp add: check_accum_eq)
  have 2: "prepare_run_path a s = (Raise (AssertionError RunMarkExists), s)"
    using assms by (simp add: prepare_run_path_eq)
  show ?thesis by (simp add: startup_def 1 2)
qed

lemma startup_ok:
  assumes "g_accum a mod world_size a = 0" "prepare_run_path a s = (Next, s1)"
  shows "startup a e s = (Next, (snd (load_all a e s1))\<lparr>step := 1\<rparr>)"
proof -
  have 1: "check_accum a s = (Next, s)" using assms(1) by (simp add: check_accum_eq)
  obtain s2 where 3: "load_all a e s1 = (Next, s2)" using load_all_eq[of a e s1] by blast
  show ?thesis using 3 by (simp add: startup_def 1 assms(2))
qed

lemma prepare_run_path_cases:
  "prepare_run_path a s = (Raise (AssertionError RunMarkExists), s)
   \<or> (\<exists>s1. prepare_run_path a s = (Next, s1))"
  by (simp add: prepare_run_path_eq)

lemma startup_not_accum:
  assumes "g_accum a mod world_size a = 0"
  shows "fst (startup a e s) \<noteq> Raise (AssertionError AccumDividesWorld)"
proof -
  have 1: "check_accum a s = (Next, s)" using assms(1) by (simp add: check_accum_eq)
  from prepare_run_path_cases[of a s] show ?thesis
  proof
    assume 2: "prepare_run_path a s = (Raise (AssertionError RunMarkExists), s)"
    have "startup a e s = (Raise (AssertionError RunMarkExists), s)"
      by (simp add: startup_def 1 2)
    then show ?thesis by simp
  next
    assume "\<exists>s1. prepare_run_path a s = (Next, s1)"
    then obtain s1 where "prepare_run_path a s = (Next, s1)" ..
    then show ?thesis using startup_ok[OF assms] by simp
  qed
qed

lemma main_body_startup_fail:
  "startup a e s = (Raise err, s') \<Longrightarrow> main_body a e s = (Uncaught err, s')"
  by (simp add: main_body_def)

text \<open>
  Claim accum_gradients_assertion. When \<^verbatim>\<open>g_accum_gradients % world_size\<close> is not zero, \<^verbatim>\<open>main\<close> ends with the
  \<^verbatim>\<open>AssertionError\<close> of line 61 and the state it started in: no directory, tokenizer,
  corpus, device or process group has been touched. The start-up passes only if the
  remainder is zero, and then never raises this error; so it is for a world size of 1, 2,
  4 or 8 and any multiple of it.
\<close>

theorem accum_gradients_assertion:
  "(g_accum a mod world_size a \<noteq> 0 \<longrightarrow>
      startup a e s = (Raise (AssertionError AccumDividesWorld), s)
      \<and> main_body a e s = (Uncaught (AssertionError AccumDividesWorld), s))
   \<and> (fst (startup a e s) = Next \<longrightarrow> g_accum a mod world_size a = 0)
   \<and> (g_accum a mod world_size a = 0 \<longrightarrow>
        fst (startup a e s) \<noteq> Raise (AssertionError AccumDividesWorld))
   \<and> (n_devices a = Some w \<and> w \<in> {1, 2, 4, 8} \<and> g_accum_gradients a = Some (k * w) \<longrightarrow>
        fst (startup a e s) \<noteq> Raise (AssertionError AccumDividesWorld))"
proof (intro conjI impI)
  assume h: "g_accum a mod world_size a \<noteq> 0"
  then show st: "startup a e s = (Raise (AssertionError AccumDividesWorld), s)"
    by (rule startup_accum_fail)
  show "main_body a e s = (Uncaught (AssertionError AccumDividesWorld), s)"
    by (rule main_body_startup_fail[OF st])
next
  assume n: "fst (startup a e s) = Next"
  show "g_accum a mod world_size a = 0"
  proof (rule ccontr)
    assume "g_accum a mod world_size a \<noteq> 0"
    then have "startup a e s = (Raise (AssertionError AccumDividesWorld), s)"
      by (rule startup_accum_fail)
    then show False using n by simp
  qed
next
  assume "g_accum a mod world_size a = 0"
  then show "fst (startup a e s) \<noteq> Raise (AssertionError AccumDividesWorld)"
    by (rule startup_not_accum)
next
  assume h: "n_devices a = Some w \<and> w \<in> {1, 2, 4, 8} \<and> g_accum_gradients a = Some (k * w)"
  then have "world_size a = w" by (auto simp: world_size_def)
  moreover have "g_accum a = k * w" using h by (simp add: g_accum_def)
  ultimately have "g_accum a mod world_size a = 0" by simp
  then show "fst (startup a e s) \<noteq> Raise (AssertionError AccumDividesWorld)"
    by (rule startup_not_accum)
qed

theorem accum_gradients_assertion_witness:
  "g_accum (demo_args\<lparr>n_devices := Some 2, g_accum_gradients := Some 3\<rparr>)
      mod world_size (demo_args\<lparr>n_devices := Some 2, g_accum_gradients := Some 3\<rparr>) \<noteq> 0
   \<and> main_body (demo_args\<lparr>n_devices := Some 2, g_accum_gradients := Some 3\<rparr>) demo_env
        (start_state demo_dir None)
      = (Uncaught (AssertionError AccumDividesWorld), start_state demo_dir None)
   \<and> n_devices (demo_args\<lparr>n_devices := Some 4, g_accum_gradients := Some (3 * 4)\<rparr>) = Some 4
   \<and> (4 :: int) \<in> {1, 2, 4, 8}
   \<and> fst (startup (demo_args\<lparr>n_devices := Some 4, g_accum_gradients := Some (3 * 4)\<rparr>) demo_env
        (start_state demo_dir None)) \<noteq> Raise (AssertionError AccumDividesWorld)"
  using accum_gradients_assertion[of "demo_args\<lparr>n_devices := Some 2, g_accum_gradients := Some 3\<rparr>" demo_env
            "start_state demo_dir None" 2 1]
        accum_gradients_assertion[of "demo_args\<lparr>n_devices := Some 4, g_accum_gradients := Some (3 * 4)\<rparr>" demo_env
            "start_state demo_dir None" 4 3]
  by (simp add: g_accum_def world_size_def demo_args_def)

section \<open>What the training loop leaves alone\<close>

lemma block_inv:
  assumes "\<And>act s. act \<in> set acts \<Longrightarrow> P s \<Longrightarrow> P (snd (act s))" "P s"
  shows "P (snd (block acts s))"
  using assms
proof (induction acts arbitrary: s)
  case Nil
  then show ?case by simp
next
  case (Cons act acts)
  obtain sig s' where r: "act s = (sig, s')" by (cases "act s")
  have p: "P s'" using Cons.prems(1)[of act s] Cons.prems(2) r by simp
  show ?case
  proof (cases sig)
    case Next
    have "P (snd (block acts s'))"
      by (rule Cons.IH) (use Cons.prems(1) p in auto)
    then show ?thesis using r Next by simp
  next
    case Return
    then show ?thesis using r p by simp
  next
    case (Raise err)
    then show ?thesis using r p by simp
  qed
qed

lemma repeat_inv:
  assumes "\<And>s. P s \<Longrightarrow> P (snd (body s))" "P s"
  shows "P (snd (repeat n body s))"
  using assms(2)
proof (induction n arbitrary: s)
  case 0
  then show ?case by simp
next
  case (Suc n)
  obtain sig s' where r: "body s = (sig, s')" by (cases "body s")
  have p: "P s'" using assms(1)[of s] Suc.prems r by simp
  show ?case using r p Suc.IH[of s'] by (cases sig) simp_all
qed

lemma if_then_inv:
  assumes "\<And>s. P s \<Longrightarrow> P (snd (body s))" "P s"
  shows "P (snd (if_then c body s))"
  using assms by (simp add: if_then_def split: sum.splits)

lemma stmt_inv:
  assumes "\<And>s. P s \<Longrightarrow> P (snd (act s))" "\<And>s p. P (s\<lparr>pending := p\<rparr>) = P s" "P s"
  shows "P (snd (stmt act s))"
  using assms by (simp add: stmt_def split: option.splits nat.splits)

lemma save_other_file:
  "name \<notin> {''model.pt'', ''optim.pt'', ''model-prev.pt'', ''optim-prev.pt''} \<Longrightarrow>
   files (run_path (save a s)) name = files (run_path s) name"
  by (cases "is_main a") (simp_all add: save_files save_not_main Let_def split: option.splits)

lemma save_events: "events (save a s) = events s @ (if is_main a then [Saved (updates s) (step s)] else [])"
  by (simp add: save_def Let_def emit_def)

lemma validate_cases:
  "validate a e s = (Next, s)
   \<or> (\<exists>err. validate a e s = (Raise err, s))
   \<or> (\<exists>v. validate a e s = (Next, emit (WriteEventValidLoss (step s * step_tokens a) v) s))"
  by (auto simp: validate_def split: sum.splits)

lemma train_step_cases:
  "(\<exists>err. train_step a e s = (Raise err, s))
   \<or> (\<exists>m. train_step a e s =
          (Next, emit Updated
             (s\<lparr>draws := draws s + nat (batch_size a * accum_gradients a),
                loss_meter := m, updates := Suc (updates s)\<rparr>)))"
  by (auto simp: train_step_def Let_def split: sum.splits)

lemma set_postfix_cases:
  "(\<exists>err. set_postfix a s = (Raise err, s))
   \<or> (\<exists>m. set_postfix a s = (Next, if is_main a then emit (SetPostfix (step s) m) s else s))"
  by (auto simp: set_postfix_def split: sum.splits)

lemma write_event_loss_cases:
  "(\<exists>err. write_event_loss a s = (Raise err, s))
   \<or> (\<exists>m. write_event_loss a s = (Next, emit (WriteEventLoss (step s * step_tokens a) m) s))"
  by (auto simp: write_event_loss_def split: sum.splits)

lemma untouched_pending: "untouched name v r (s\<lparr>pending := p\<rparr>) = untouched name v r s"
  by (simp add: untouched_def)

lemma untouched_save:
  "name \<notin> {''model.pt'', ''optim.pt'', ''model-prev.pt'', ''optim-prev.pt''} \<Longrightarrow>
   untouched name v r s \<Longrightarrow> untouched name v r (save a s)"
  using save_other_file[of name a s] by (simp add: untouched_def save_events)

lemma untouched_validate: "untouched name v r s \<Longrightarrow> untouched name v r (snd (validate a e s))"
  using validate_cases[of a e s] by (auto simp: untouched_def emit_def)

lemma untouched_train_step: "untouched name v r s \<Longrightarrow> untouched name v r (snd (train_step a e s))"
  using train_step_cases[of a e s] by (auto simp: untouched_def emit_def)

lemma untouched_set_postfix: "untouched name v r s \<Longrightarrow> untouched name v r (snd (set_postfix a s))"
  using set_postfix_cases[of a s] by (auto simp: untouched_def emit_def split: if_splits)

lemma untouched_write_event_loss:
  "untouched name v r s \<Longrightarrow> untouched name v r (snd (write_event_loss a s))"
  using write_event_loss_cases[of a s] by (auto simp: untouched_def emit_def)

lemma untouched_loop_body:
  assumes "name \<notin> {''model.pt'', ''optim.pt'', ''model-prev.pt'', ''optim-prev.pt''}"
    "untouched name v r s"
  shows "untouched name v r (snd (loop_body a e s))"
  unfolding loop_body_def
proof (rule block_inv[where P = "untouched name v r", OF _ assms(2)], goal_cases)
  case (1 act s)
  have sv: "\<And>s. untouched name v r s \<Longrightarrow> untouched name v r (snd (stmt (\<lambda>s. (Next, save a s)) s))"
    by (rule stmt_inv[where P = "untouched name v r"])
       (simp_all add: untouched_save[OF assms(1)] untouched_pending)
  have vl: "\<And>s. untouched name v r s \<Longrightarrow> untouched name v r (snd (stmt (validate a e) s))"
    by (rule stmt_inv[where P = "untouched name v r"])
       (simp_all add: untouched_validate untouched_pending)
  have pr: "\<And>s. untouched name v r s \<Longrightarrow> untouched name v r (snd (stmt (print_max_tokens a) s))"
    by (rule stmt_inv[where P = "untouched name v r"])
       (simp_all add: untouched_pending, simp add: untouched_def print_max_tokens_def emit_def)
  have rt: "\<And>s. untouched name v r s \<Longrightarrow> untouched name v r (snd (stmt (\<lambda>s. (Return, s)) s))"
    by (rule stmt_inv[where P = "untouched name v r"]) (simp_all add: untouched_pending)
  have ts: "\<And>s. untouched name v r s \<Longrightarrow> untouched name v r (snd (stmt (train_step a e) s))"
    by (rule stmt_inv[where P = "untouched name v r"])
       (simp_all add: untouched_train_step untouched_pending)
  have inc: "\<And>s. untouched name v r s \<Longrightarrow>
      untouched name v r (snd (stmt (\<lambda>s. (Next, s\<lparr>step := step s + 1\<rparr>)) s))"
    by (rule stmt_inv[where P = "untouched name v r"])
       (simp_all add: untouched_pending, simp add: untouched_def)
  have sp: "\<And>s. untouched name v r s \<Longrightarrow> untouched name v r (snd (stmt (set_postfix a) s))"
    by (rule stmt_inv[where P = "untouched name v r"])
       (simp_all add: untouched_set_postfix untouched_pending)
  have we: "\<And>s. untouched name v r s \<Longrightarrow> untouched name v r (snd (stmt (write_event_loss a) s))"
    by (rule stmt_inv[where P = "untouched name v r"])
       (simp_all add: untouched_write_event_loss untouched_pending)
  have rs: "\<And>s. untouched name v r s \<Longrightarrow>
      untouched name v r (snd (stmt (\<lambda>s. (Next, s\<lparr>loss_meter := reset (loss_meter s)\<rparr>)) s))"
    by (rule stmt_inv[where P = "untouched name v r"])
       (simp_all add: untouched_pending, simp add: untouched_def)
  have stop: "\<And>s. untouched name v r s \<Longrightarrow>
      untouched name v r (snd (block [stmt (print_max_tokens a), stmt (\<lambda>s. (Next, save a s)),
         stmt (validate a e), stmt (\<lambda>s. (Return, s))] s))"
    by (rule block_inv[where P = "untouched name v r"]) (use pr sv vl rt in auto)
  have lg: "\<And>s. untouched name v r s \<Longrightarrow>
      untouched name v r (snd (block [stmt (write_event_loss a),
         stmt (\<lambda>s. (Next, s\<lparr>loss_meter := reset (loss_meter s)\<rparr>))] s))"
    by (rule block_inv[where P = "untouched name v r"]) (use we rs in auto)
  from 1 show ?case
    using sv vl ts inc sp stop lg
    by (auto intro!: if_then_inv[where P = "untouched name v r"])
qed

lemma untouched_train:
  assumes "name \<notin> {''model.pt'', ''optim.pt'', ''model-prev.pt'', ''optim-prev.pt''}"
    "untouched name v r s"
  shows "untouched name v r (snd (train a e n s))"
proof -
  have sv: "\<And>s. untouched name v r s \<Longrightarrow> untouched name v r (snd (stmt (\<lambda>s. (Next, save a s)) s))"
    by (rule stmt_inv[where P = "untouched name v r"])
       (simp_all add: untouched_save[OF assms(1)] untouched_pending)
  have vl: "\<And>s. untouched name v r s \<Longrightarrow> untouched name v r (snd (stmt (validate a e) s))"
    by (rule stmt_inv[where P = "untouched name v r"])
       (simp_all add: untouched_validate untouched_pending)
  have inner: "\<And>s. untouched name v r s \<Longrightarrow>
      untouched name v r (snd (repeat (nat n) (loop_body a e) s))"
    by (rule repeat_inv[where P = "untouched name v r"]) (rule untouched_loop_body[OF assms(1)])
  have epoch: "\<And>s. untouched name v r s \<Longrightarrow>
      untouched name v r (snd (block [repeat (nat n) (loop_body a e),
         stmt (\<lambda>s. (Next, save a s)), stmt (validate a e)] s))"
    by (rule block_inv[where P = "untouched name v r"]) (use inner sv vl in auto)
  have "untouched name v r (snd (repeat (nat (epochs a))
      (block [repeat (nat n) (loop_body a e), stmt (\<lambda>s. (Next, save a s)), stmt (validate a e)]) s))"
    by (rule repeat_inv[where P = "untouched name v r"]) (use epoch assms(2) in auto)
  then show ?thesis
    by (auto simp: train_def split: prod.splits signal.splits)
qed

lemma untouched_run_mode:
  assumes "name \<notin> {''model.pt'', ''optim.pt'', ''model-prev.pt'', ''optim-prev.pt''}"
    "untouched name v r s"
  shows "untouched name v r (snd (run_mode a e n s))"
proof (cases "only_validate a")
  case True
  then show ?thesis using assms(2) by (simp add: run_mode_def untouched_def emit_def)
next
  case False
  have t: "untouched name v r (snd (train a e n s))" by (rule untouched_train[OF assms])
  have "untouched name v r (save a (emit (Print ''Interrupted, saving'') (snd (train a e n s))))"
    by (rule untouched_save[OF assms(1)]) (use t in \<open>simp add: untouched_def emit_def\<close>)
  then show ?thesis using False t
    by (auto simp: run_mode_def split: prod.splits signal.splits)
qed

lemma main_body_untouched:
  assumes "name \<notin> {''model.pt'', ''optim.pt'', ''model-prev.pt'', ''optim-prev.pt''}"
    "untouched name v r (snd (startup a e s))"
  shows "untouched name v r (snd (main_body a e s))"
proof -
  obtain sig s1 where st: "startup a e s = (sig, s1)" by (cases "startup a e s")
  have u: "untouched name v r s1" using assms(2) st by simp
  have "\<And>n. untouched name v r (snd (run_mode a e n s1))"
    by (rule untouched_run_mode[OF assms(1) u])
  then show ?thesis using st u
    by (auto simp: main_body_def split: signal.splits sum.splits)
qed

lemma startup_untouched:
  assumes "\<not> (is_main a \<and> clean a \<and> dir_exists (run_path s) \<and> files (run_path s) ''.lm'' \<noteq> None)"
    "name \<noteq> ''.lm''" "name \<noteq> ''params.json''"
  shows "untouched name (files (run_path s) name) (Removed \<in> set (events s)) (snd (startup a e s))"
proof (cases "g_accum a mod world_size a = 0")
  case False
  then show ?thesis by (simp add: startup_accum_fail untouched_def)
next
  case True
  from prepare_run_path_cases[of a s] show ?thesis
  proof
    assume 2: "prepare_run_path a s = (Raise (AssertionError RunMarkExists), s)"
    have 1: "check_accum a s = (Next, s)" using True by (simp add: check_accum_eq)
    have "startup a e s = (Raise (AssertionError RunMarkExists), s)"
      by (simp add: startup_def 1 2)
    then show ?thesis by (simp add: untouched_def)
  next
    assume "\<exists>s1. prepare_run_path a s = (Next, s1)"
    then obtain s1 where p: "prepare_run_path a s = (Next, s1)" ..
    have s1: "files (run_path s1) name = files (run_path s) name \<and> events s1 = events s"
      using p assms by (auto simp: prepare_run_path_eq touch_def mkdir_def split: if_splits option.splits)
    have "startup a e s = (Next, (snd (load_all a e s1))\<lparr>step := 1\<rparr>)"
      by (rule startup_ok[OF True p])
    then show ?thesis using s1 assms(3)
      by (simp add: untouched_def load_all_eq write_file_def split: option.splits)
  qed
qed

lemma startup_cleaned:
  assumes "is_main a" "g_accum a mod world_size a = 0" "clean a" "dir_exists (run_path s)"
    "files (run_path s) ''.lm'' \<noteq> None"
  shows "fst (startup a e s) = Next
    \<and> files (run_path (snd (startup a e s))) =
        (\<lambda>name. None)(''.lm'' \<mapsto> Empty, ''params.json'' \<mapsto> ParamsJson)
    \<and> Removed \<in> set (events (snd (startup a e s)))"
proof -
  let ?s1 = "s\<lparr>run_path := touch ''.lm'' (mkdir (rmtree (run_path s))),
               events := events s @ [Removed]\<rparr>"
  have p: "prepare_run_path a s = (Next, ?s1)" using assms by (simp add: prepare_run_path_eq)
  have "startup a e s = (Next, (snd (load_all a e ?s1))\<lparr>step := 1\<rparr>)"
    by (rule startup_ok[OF assms(2) p])
  then show ?thesis using assms(1)
    by (simp add: load_all_eq write_file_def touch_def mkdir_def rmtree_def)
qed

text \<open>
  Claim clean_requires_run_mark. With \<^verbatim>\<open>clean\<close> set and the run directory present but without \<^verbatim>\<open>.lm\<close>, the
  primary ends with an \<^verbatim>\<open>AssertionError\<close> and the directory as it was. The tree is
  removed by \<^verbatim>\<open>main\<close> only on the primary, with \<^verbatim>\<open>clean\<close> set, the directory present and
  \<^verbatim>\<open>.lm\<close> in it; it is then created again with \<^verbatim>\<open>.lm\<close> and \<^verbatim>\<open>params.json\<close>. In every
  other case each file that the program does not write itself is, at the end of \<^verbatim>\<open>main\<close>,
  what it was at the start.
\<close>

theorem clean_requires_run_mark:
  "(is_main a \<and> clean a \<and> dir_exists (run_path s) \<and> files (run_path s) ''.lm'' = None \<longrightarrow>
      main_body a e s =
        (Uncaught (AssertionError (if g_accum a mod world_size a = 0 then RunMarkExists
                                   else AccumDividesWorld)), s))
   \<and> (Removed \<in> set (events (snd (main_body a e s))) \<and> Removed \<notin> set (events s) \<longrightarrow>
        is_main a \<and> clean a \<and> dir_exists (run_path s) \<and> files (run_path s) ''.lm'' \<noteq> None)
   \<and> (is_main a \<and> g_accum a mod world_size a = 0 \<and> clean a \<and> dir_exists (run_path s)
        \<and> files (run_path s) ''.lm'' \<noteq> None \<longrightarrow>
        fst (startup a e s) = Next
        \<and> files (run_path (snd (startup a e s))) =
            (\<lambda>name. None)(''.lm'' \<mapsto> Empty, ''params.json'' \<mapsto> ParamsJson)
        \<and> Removed \<in> set (events (snd (startup a e s))))
   \<and> (\<not> (is_main a \<and> clean a \<and> dir_exists (run_path s) \<and> files (run_path s) ''.lm'' \<noteq> None) \<longrightarrow>
        (\<forall>name. name \<notin> {''.lm'', ''params.json'', ''model.pt'', ''optim.pt'',
                          ''model-prev.pt'', ''optim-prev.pt''} \<longrightarrow>
           files (run_path (snd (main_body a e s))) name = files (run_path s) name))"
proof (intro conjI impI allI)
  assume h: "is_main a \<and> clean a \<and> dir_exists (run_path s) \<and> files (run_path s) ''.lm'' = None"
  show "main_body a e s =
        (Uncaught (AssertionError (if g_accum a mod world_size a = 0 then RunMarkExists
                                   else AccumDividesWorld)), s)"
  proof (cases "g_accum a mod world_size a = 0")
    case True
    have "startup a e s = (Raise (AssertionError RunMarkExists), s)"
      by (rule startup_mark_fail) (use h True in auto)
    then show ?thesis using True by (simp add: main_body_startup_fail)
  next
    case False
    then have "startup a e s = (Raise (AssertionError AccumDividesWorld), s)"
      by (rule startup_accum_fail)
    then show ?thesis using False by (simp add: main_body_startup_fail)
  qed
next
  assume h: "Removed \<in> set (events (snd (main_body a e s))) \<and> Removed \<notin> set (events s)"
  have c: "is_main a \<and> clean a \<and> dir_exists (run_path s) \<and> files (run_path s) ''.lm'' \<noteq> None"
  proof (rule ccontr)
    assume n: "\<not> (is_main a \<and> clean a \<and> dir_exists (run_path s) \<and> files (run_path s) ''.lm'' \<noteq> None)"
    have "untouched ''x'' (files (run_path s) ''x'') (Removed \<in> set (events s)) (snd (startup a e s))"
      by (rule startup_untouched[OF n]) simp_all
    then have "untouched ''x'' (files (run_path s) ''x'') (Removed \<in> set (events s))
        (snd (main_body a e s))"
      by (rule main_body_untouched[rotated]) simp
    then show False using h by (simp add: untouched_def)
  qed
  show "is_main a" using c by simp
  show "clean a" using c by simp
  show "dir_exists (run_path s)" using c by simp
  show "files (run_path s) ''.lm'' \<noteq> None" using c by simp
next
  assume h: "is_main a \<and> g_accum a mod world_size a = 0 \<and> clean a \<and> dir_exists (run_path s)
        \<and> files (run_path s) ''.lm'' \<noteq> None"
  have c: "fst (startup a e s) = Next
    \<and> files (run_path (snd (startup a e s))) =
        (\<lambda>name. None)(''.lm'' \<mapsto> Empty, ''params.json'' \<mapsto> ParamsJson)
    \<and> Removed \<in> set (events (snd (startup a e s)))"
    by (rule startup_cleaned) (use h in auto)
  show "fst (startup a e s) = Next" using c by simp
  show "files (run_path (snd (startup a e s))) =
        (\<lambda>name. None)(''.lm'' \<mapsto> Empty, ''params.json'' \<mapsto> ParamsJson)" using c by simp
  show "Removed \<in> set (events (snd (startup a e s)))" using c by simp
next
  fix name
  assume n: "\<not> (is_main a \<and> clean a \<and> dir_exists (run_path s) \<and> files (run_path s) ''.lm'' \<noteq> None)"
  assume nm: "name \<notin> {''.lm'', ''params.json'', ''model.pt'', ''optim.pt'',
                          ''model-prev.pt'', ''optim-prev.pt''}"
  have "untouched name (files (run_path s) name) (Removed \<in> set (events s)) (snd (startup a e s))"
    by (rule startup_untouched[OF n]) (use nm in auto)
  then have "untouched name (files (run_path s) name) (Removed \<in> set (events s))
        (snd (main_body a e s))"
    by (rule main_body_untouched[rotated]) (use nm in auto)
  then show "files (run_path (snd (main_body a e s))) name = files (run_path s) name"
    by (simp add: untouched_def)
qed

theorem clean_requires_run_mark_witness:
  "is_main (demo_args\<lparr>clean := True\<rparr>) \<and> clean (demo_args\<lparr>clean := True\<rparr>)
   \<and> dir_exists (run_path (start_state
        \<lparr>dir_exists = True, files = (\<lambda>name. None)(''notes.txt'' \<mapsto> Other 7)\<rparr> None))
   \<and> files (run_path (start_state
        \<lparr>dir_exists = True, files = (\<lambda>name. None)(''notes.txt'' \<mapsto> Other 7)\<rparr> None)) ''.lm'' = None
   \<and> main_body (demo_args\<lparr>clean := True\<rparr>) demo_env
        (start_state \<lparr>dir_exists = True, files = (\<lambda>name. None)(''notes.txt'' \<mapsto> Other 7)\<rparr> None)
      = (Uncaught (AssertionError RunMarkExists),
         start_state \<lparr>dir_exists = True, files = (\<lambda>name. None)(''notes.txt'' \<mapsto> Other 7)\<rparr> None)
   \<and> files (run_path (snd (startup (demo_args\<lparr>clean := True\<rparr>) demo_env
        (start_state \<lparr>dir_exists = True,
           files = (\<lambda>name. None)(''.lm'' \<mapsto> Empty, ''model.pt'' \<mapsto> ModelCheckpoint 5 6)\<rparr> None))))
      = (\<lambda>name. None)(''.lm'' \<mapsto> Empty, ''params.json'' \<mapsto> ParamsJson)"
  using clean_requires_run_mark[of "demo_args\<lparr>clean := True\<rparr>"
            "start_state \<lparr>dir_exists = True, files = (\<lambda>name. None)(''notes.txt'' \<mapsto> Other 7)\<rparr> None"
            demo_env]
        clean_requires_run_mark[of "demo_args\<lparr>clean := True\<rparr>"
            "start_state \<lparr>dir_exists = True,
               files = (\<lambda>name. None)(''.lm'' \<mapsto> Empty, ''model.pt'' \<mapsto> ModelCheckpoint 5 6)\<rparr> None"
            demo_env]
  by (simp add: is_main_def demo_args_def start_state_def g_accum_def world_size_def)


end
